theory Spec2Isabelle
  imports Main "HOL-Library.Sublist" "HOL-Library.Code_Target_Nat"
begin

section \<open>Python strings\<close>

text \<open>
  A Python \<open>str\<close> is a sequence of Unicode code points; \<open>len\<close>, \<open>strip\<close>, \<open>split\<close>
  and the \<open>re\<close> module all work on code points. A code point is a natural number here,
  and \<open>py\<close> turns an ASCII literal into such a string.
\<close>

type_synonym pychar = nat
type_synonym pystr = "pychar list"

definition py :: "string \<Rightarrow> pystr" where
  "py s = map of_char s"

text \<open>
  The characters for which \<open>str.isspace\<close> holds. \<open>str.strip()\<close>, \<open>str.split()\<close> and the
  pattern \<open>\s\<close> of a \<open>str\<close> regular expression use this same set.
\<close>

definition isspace :: "pychar \<Rightarrow> bool" where
  "isspace c \<longleftrightarrow>
     (9 \<le> c \<and> c \<le> 13) \<or> (28 \<le> c \<and> c \<le> 32) \<or> c = 133 \<or> c = 160 \<or> c = 5760 \<or>
     (8192 \<le> c \<and> c \<le> 8202) \<or> c = 8232 \<or> c = 8233 \<or> c = 8239 \<or> c = 8287 \<or> c = 12288"

definition str_strip :: "pystr \<Rightarrow> pystr" where
  "str_strip s = rev (dropWhile isspace (rev (dropWhile isspace s)))"

text \<open>
  \<open>s.split()\<close>: the maximal runs of non-whitespace characters. \<open>w\<close> is the word being
  read.
\<close>

fun split_from :: "pystr \<Rightarrow> pystr \<Rightarrow> pystr list" where
  "split_from w [] = (if w = [] then [] else [w])"
| "split_from w (c # cs) =
     (if isspace c then (if w = [] then split_from [] cs else w # split_from [] cs)
      else split_from (w @ [c]) cs)"

definition str_split :: "pystr \<Rightarrow> pystr list" where
  "str_split s = split_from [] s"

text \<open>\<open>sep.join(xs)\<close>.\<close>

fun str_join :: "pystr \<Rightarrow> pystr list \<Rightarrow> pystr" where
  "str_join sep [] = []"
| "str_join sep [x] = x"
| "str_join sep (x # y # ys) = x @ sep @ str_join sep (y # ys)"

text \<open>\<open>s.replace(old, new)\<close> for a pattern \<open>old\<close> of one character, the only use in the source.\<close>

definition str_replace :: "pychar \<Rightarrow> pystr \<Rightarrow> pystr \<Rightarrow> pystr" where
  "str_replace old new s = concat (map (\<lambda>c. if c = old then new else [c]) s)"

text \<open>
  \<open>xs[i:]\<close> for a possibly negative \<open>i\<close>: a negative start counts from the end and is
  clamped at the beginning of the list.
\<close>

definition slice_from :: "int \<Rightarrow> 'a list \<Rightarrow> 'a list" where
  "slice_from i xs = (if i < 0 then drop (nat (int (length xs) + i)) xs else drop (nat i) xs)"

text \<open>\<open>xs[i:j]\<close> for non-negative \<open>i\<close> and \<open>j\<close>.\<close>

definition slice :: "nat \<Rightarrow> nat \<Rightarrow> 'a list \<Rightarrow> 'a list" where
  "slice i j xs = take (j - i) (drop i xs)"

text \<open>\<open>str(n)\<close> for an integer: decimal digits, with a minus sign when negative.\<close>

fun str_nat :: "nat \<Rightarrow> pystr" where
  "str_nat n = (if n < 10 then [48 + n] else str_nat (n div 10) @ [48 + n mod 10])"

declare str_nat.simps [simp del]

definition str_int :: "int \<Rightarrow> pystr" where
  "str_int i = (if i < 0 then 45 # str_nat (nat (- i)) else str_nat (nat i))"

subsection \<open>The regular expressions of the source\<close>

text \<open>\<open>re.sub(r'\s+', ' ', text)\<close>: every maximal run of whitespace becomes one space.\<close>

function collapse_ws :: "pystr \<Rightarrow> pystr" where
  "collapse_ws [] = []"
| "collapse_ws (c # cs) =
     (if isspace c then 32 # collapse_ws (dropWhile isspace cs) else c # collapse_ws cs)"
  by pat_completeness auto
termination
  by (relation "measure length") (auto simp: length_dropWhile_le less_Suc_eq_le)

text \<open>\<open>re.sub(r'\.{2,}', '.', text)\<close>: every maximal run of two or more periods becomes one.\<close>

function collapse_dots :: "pystr \<Rightarrow> pystr" where
  "collapse_dots [] = []"
| "collapse_dots (c # cs) =
     (if c = 46 \<and> cs \<noteq> [] \<and> hd cs = 46
      then 46 # collapse_dots (dropWhile (\<lambda>x. x = 46) cs)
      else c # collapse_dots cs)"
  by pat_completeness auto
termination
  by (relation "measure length") (auto simp: length_dropWhile_le less_Suc_eq_le)

text \<open>
  \<open>re.split(r'[.!?]+', text)\<close>: the pieces between the maximal runs of \<open>.\<close>, \<open>!\<close> and
  \<open>?\<close>, empty pieces at both ends included. \<open>acc\<close> is the piece being read.
\<close>

definition is_terminator :: "pychar \<Rightarrow> bool" where
  "is_terminator c \<longleftrightarrow> c = 46 \<or> c = 33 \<or> c = 63"

function re_split_from :: "pystr \<Rightarrow> pystr \<Rightarrow> pystr list" where
  "re_split_from acc [] = [acc]"
| "re_split_from acc (c # cs) =
     (if is_terminator c then acc # re_split_from [] (dropWhile is_terminator cs)
      else re_split_from (acc @ [c]) cs)"
  by pat_completeness auto
termination
  by (relation "measure (\<lambda>(acc, s). length s)") (auto simp: length_dropWhile_le less_Suc_eq_le)

section \<open>TextProcessor\<close>

record text_processor =
  target_chunk_size :: int
  overlap_size :: int
  min_chunk_size :: int

text \<open>\<open>__init__\<close>: the two sizes are arguments, the minimum is fixed at 50.\<close>

definition TextProcessor :: "int \<Rightarrow> int \<Rightarrow> text_processor" where
  "TextProcessor target overlap =
     \<lparr>target_chunk_size = target, overlap_size = overlap, min_chunk_size = 50\<rparr>"

record chunk =
  text_str :: pystr
  chunk_id :: pystr
  chunk_index :: int
  word_count :: int
  product_id :: pystr

definition clean_text :: "pystr \<Rightarrow> pystr" where
  "clean_text t =
     (if t = [] then []
      else str_strip (collapse_dots
             (str_replace 9 (py '' '')
               (str_replace 10 (py ''. '')
                 (str_replace 124 (py ''. '') (collapse_ws t))))))"

definition simple_sentence_split :: "pystr \<Rightarrow> pystr list" where
  "simple_sentence_split t =
     map str_strip (filter (\<lambda>s. str_strip s \<noteq> []) (re_split_from [] t))"

definition get_overlap :: "text_processor \<Rightarrow> pystr \<Rightarrow> pystr" where
  "get_overlap tp t =
     (if t = [] then []
      else let words = str_split t in
        if int (length words) > overlap_size tp
        then str_join (py '' '') (slice_from (- overlap_size tp) words)
        else [])"

definition mk_chunk :: "pystr \<Rightarrow> pystr \<Rightarrow> int \<Rightarrow> int \<Rightarrow> chunk" where
  "mk_chunk t pid idx wc =
     \<lparr>text_str = t, chunk_id = pid @ py ''_chunk_'' @ str_int idx, chunk_index = idx,
      word_count = wc, product_id = pid\<rparr>"

text \<open>
  The state of the loop of \<open>chunk_text\<close>: the chunks closed so far, the buffer
  \<open>current_chunk\<close>, \<open>current_word_count\<close> and \<open>chunk_index\<close>.
\<close>

type_synonym loop_state = "chunk list \<times> pystr \<times> int \<times> int"

definition chunk_step :: "text_processor \<Rightarrow> pystr \<Rightarrow> loop_state \<Rightarrow> pystr \<Rightarrow> loop_state" where
  "chunk_step tp pid st sentence0 =
     (case st of (chunks, current_chunk, current_word_count, idx) \<Rightarrow>
        let sentence = str_strip sentence0 in
        if sentence = [] then st
        else
          let sentence_words = int (length (str_split sentence)) in
          if current_word_count + sentence_words > target_chunk_size tp \<and> current_chunk \<noteq> []
          then
            let overlap_text = get_overlap tp current_chunk;
                new_chunk = (if overlap_text \<noteq> [] then overlap_text @ py '' '' @ sentence
                             else sentence)
            in (chunks @ [mk_chunk (str_strip current_chunk) pid idx current_word_count],
                new_chunk, int (length (str_split new_chunk)), idx + 1)
          else
            ((chunks,
              (if current_chunk \<noteq> [] then current_chunk @ py '' '' @ sentence else sentence),
              current_word_count + sentence_words, idx)))"

primrec chunk_loop :: "text_processor \<Rightarrow> pystr \<Rightarrow> pystr list \<Rightarrow> loop_state \<Rightarrow> loop_state" where
  "chunk_loop tp pid [] st = st"
| "chunk_loop tp pid (s # ss) st = chunk_loop tp pid ss (chunk_step tp pid st s)"

text \<open>
  \<open>nltk.sent_tokenize\<close> is a library outside the repository: it is the parameter \<open>tok\<close>,
  and \<open>None\<close> stands for a call that raised, which the source catches to fall back on
  \<open>_simple_sentence_split\<close>.
\<close>

definition sentences_of :: "(pystr \<Rightarrow> pystr list option) \<Rightarrow> pystr \<Rightarrow> pystr list" where
  "sentences_of tok t = (case tok t of Some ss \<Rightarrow> ss | None \<Rightarrow> simple_sentence_split t)"

definition finish :: "pystr \<Rightarrow> pystr \<Rightarrow> loop_state \<Rightarrow> chunk list" where
  "finish cleaned pid st =
     (case st of (chunks, current_chunk, current_word_count, idx) \<Rightarrow>
        let chunks1 = (if current_chunk \<noteq> [] \<and> current_word_count \<ge> 30
                       then chunks @ [mk_chunk (str_strip current_chunk) pid idx current_word_count]
                       else chunks)
        in if chunks1 = []
           then [mk_chunk cleaned pid 0 (int (length (str_split cleaned)))]
           else chunks1)"

definition is_short :: "text_processor \<Rightarrow> pystr \<Rightarrow> bool" where
  "is_short tp t \<longleftrightarrow> t = [] \<or> int (length (str_strip t)) < min_chunk_size tp"

definition chunk_text ::
  "text_processor \<Rightarrow> (pystr \<Rightarrow> pystr list option) \<Rightarrow> pystr \<Rightarrow> pystr \<Rightarrow> chunk list" where
  "chunk_text tp tok t pid =
     (if is_short tp t
      then [mk_chunk t pid 0 (if t \<noteq> [] then int (length (str_split t)) else 0)]
      else
        let cleaned = clean_text t;
            sentences = sentences_of tok cleaned
        in finish cleaned pid (chunk_loop tp pid sentences ([], [], 0, 0)))"

text \<open>A tokenizer that always raises: the run in which NLTK is unavailable.\<close>

definition nltk_unavailable :: "pystr \<Rightarrow> pystr list option" where
  "nltk_unavailable t = None"

subsection \<open>Assembling the text of a product\<close>

text \<open>
  The values a product row holds. \<open>PFloat m k\<close> is the float written \<open>m\<close> times ten to
  the minus \<open>k\<close> in decimal, which is how \<open>str\<close> prints a float given by a short decimal
  literal (19.99 is \<open>PFloat 1999 2\<close>); an integral float prints with \<open>.0\<close>.
\<close>

datatype pyval = PStr pystr | PInt int | PFloat int nat | PNone

datatype error = TypeError | ZeroDivisionError | Raised pystr

definition str_float :: "int \<Rightarrow> nat \<Rightarrow> pystr" where
  "str_float m k =
     (let a = nat \<bar>m\<bar>;
          frac = str_nat (a mod 10 ^ k)
      in (if m < 0 then [45] else []) @ str_nat (a div 10 ^ k) @ [46] @
         (if k = 0 then [48] else replicate (k - length frac) 48 @ frac))"

fun str_of :: "pyval \<Rightarrow> pystr" where
  "str_of (PStr s) = s"
| "str_of (PInt i) = str_int i"
| "str_of (PFloat m k) = str_float m k"
| "str_of PNone = py ''None''"

text \<open>\<open>price > 0\<close>: a string or \<open>None\<close> cannot be compared with a number.\<close>

fun gt_zero :: "pyval \<Rightarrow> error + bool" where
  "gt_zero (PInt i) = Inr (0 < i)"
| "gt_zero (PFloat m k) = Inr (0 < m)"
| "gt_zero (PStr s) = Inl TypeError"
| "gt_zero PNone = Inl TypeError"

text \<open>
  \<open>str.lower()\<close>, used only to compare a brand with \<open>'unknown'\<close>: the ASCII capitals, and
  the Kelvin sign U+212A, the one other code point whose lower case is a letter of that word.
\<close>

definition lower_char :: "pychar \<Rightarrow> pychar" where
  "lower_char c = (if 65 \<le> c \<and> c \<le> 90 then c + 32 else if c = 8490 then 107 else c)"

definition str_lower :: "pystr \<Rightarrow> pystr" where
  "str_lower s = map lower_char s"

definition dict_get :: "(pystr \<rightharpoonup> pyval) \<Rightarrow> pystr \<Rightarrow> pyval \<Rightarrow> pyval" where
  "dict_get d k dflt = (case d k of Some v \<Rightarrow> v | None \<Rightarrow> dflt)"

text \<open>
  The currency prefix of the price clause, as the characters of the source file are:
  U+00E2, U+201A, U+00B9.
\<close>

definition currency_prefix :: pystr where
  "currency_prefix = [226, 8218, 185]"

definition concatenate_product_text :: "(pystr \<rightharpoonup> pyval) \<Rightarrow> error + pystr" where
  "concatenate_product_text product_row =
     (let title = str_strip (str_of (dict_get product_row (py ''title'') (PStr [])));
          brand = str_strip (str_of (dict_get product_row (py ''brand'') (PStr (py ''unknown''))));
          category = str_strip (str_of (dict_get product_row (py ''category'') (PStr [])));
          description = str_strip (str_of (dict_get product_row (py ''description'') (PStr [])));
          price = dict_get product_row (py ''price'') (PInt 0);
          parts1 = (if title \<noteq> [] then [py ''Product: '' @ title] else []);
          parts2 = parts1 @
            (if brand \<noteq> [] \<and> str_lower brand \<noteq> py ''unknown''
             then [py ''Brand: '' @ brand] else []);
          parts3 = parts2 @
            (if category \<noteq> []
             then [py ''Category: '' @
                   str_replace 124 (py '' > '') (str_replace 38 (py '' and '') category)]
             else [])
      in case gt_zero price of
           Inl e \<Rightarrow> Inl e
         | Inr positive \<Rightarrow>
             let parts4 = parts3 @
                   (if positive then [py ''Price: '' @ currency_prefix @ str_of price] else []);
                 parts5 = parts4 @
                   (if description \<noteq> [] then [py ''Description: '' @ description] else [])
             in Inr (str_join (py ''. '') parts5))"

section \<open>EmbeddingGenerator\<close>

subsection \<open>Embedding in batches\<close>

text \<open>
  The embedding model is outside the repository: \<open>encode\<close> is a parameter, of any vector
  type, and \<open>Inl\<close> is an exception it raised. The loop runs \<open>i\<close> over
  \<open>range(0, len(texts), batch_size)\<close> for a positive step.
\<close>

function embed_loop ::
  "(pystr list \<Rightarrow> error + 'v list) \<Rightarrow> pystr list \<Rightarrow> nat \<Rightarrow> nat \<Rightarrow> 'v list \<Rightarrow> error + 'v list" where
  "embed_loop encode texts batch_size i embeddings =
     (if i < length texts \<and> 0 < batch_size
      then (case encode (slice i (i + batch_size) texts) of
              Inl e \<Rightarrow> Inl e
            | Inr batch_embeddings \<Rightarrow>
                embed_loop encode texts batch_size (i + batch_size) (embeddings @ batch_embeddings))
      else Inr embeddings)"
  by pat_completeness auto
termination
  by (relation "measure (\<lambda>(encode, texts, batch_size, i, embeddings). length texts - i)") auto

declare embed_loop.simps [simp del]

text \<open>
  \<open>total_batches\<close> divides by \<open>batch_size\<close> before the loop, so a zero batch size raises;
  a negative one gives an empty range and no embedding.
\<close>

definition generate_embeddings ::
  "(pystr list \<Rightarrow> error + 'v list) \<Rightarrow> pystr list \<Rightarrow> int \<Rightarrow> error + 'v list" where
  "generate_embeddings encode texts batch_size =
     (if batch_size = 0 then Inl ZeroDivisionError
      else if batch_size < 0 then Inr []
      else embed_loop encode texts (nat batch_size) 0 [])"

subsection \<open>The vector store client\<close>

text \<open>
  One call of \<open>collection.add\<close>: four parallel lists.
\<close>

record 'v add_batch =
  ids :: "pystr list"
  embeddings :: "'v list"
  documents :: "pystr list"
  metadatas :: "(pystr \<times> pystr) list list"

text \<open>
  The ChromaDB client is outside the repository. Each of its calls takes the state of the
  store and returns the state it leaves, with either a result or the exception it raised.
  \<open>'s\<close> is the state of the store, \<open>'h\<close> a collection handle.
\<close>

record ('s, 'h, 'v) client =
  client_get_collection :: "pystr \<Rightarrow> 's \<Rightarrow> (error + 'h) \<times> 's"
  client_delete_collection :: "pystr \<Rightarrow> 's \<Rightarrow> (error + unit) \<times> 's"
  client_create_collection :: "pystr \<Rightarrow> (pystr \<times> pyval) list \<Rightarrow> 's \<Rightarrow> (error + 'h) \<times> 's"
  collection_add :: "'h \<Rightarrow> 'v add_batch \<Rightarrow> 's \<Rightarrow> (error + unit) \<times> 's"

definition collection_metadata :: "(pystr \<times> pyval) list" where
  "collection_metadata =
     [(py ''hnsw:space'', PStr (py ''cosine'')),
      (py ''hnsw:construction_ef'', PInt 200),
      (py ''hnsw:M'', PInt 16)]"

text \<open>
  The body of the \<open>try\<close> block of \<open>create_collection\<close>: look the collection up, then delete
  it; an exception of the first call skips the second.
\<close>

definition reset_phase :: "('s, 'h, 'v) client \<Rightarrow> pystr \<Rightarrow> 's \<Rightarrow> (error + unit) \<times> 's" where
  "reset_phase cl collection_name s =
     (case client_get_collection cl collection_name s of
        (Inl e, s1) \<Rightarrow> (Inl e, s1)
      | (Inr existing_collection, s1) \<Rightarrow> client_delete_collection cl collection_name s1)"

text \<open>\<open>except: pass\<close>: whatever the block raised, the collection is created next.\<close>

definition create_collection :: "('s, 'h, 'v) client \<Rightarrow> pystr \<Rightarrow> 's \<Rightarrow> (error + 'h) \<times> 's" where
  "create_collection cl collection_name s =
     (case reset_phase cl collection_name s of
        (Inl e, s1) \<Rightarrow> client_create_collection cl collection_name collection_metadata s1
      | (Inr u, s1) \<Rightarrow> client_create_collection cl collection_name collection_metadata s1)"

text \<open>
  A row of \<open>chunks_df\<close>: the chunk and the product fields \<open>process_dataframe\<close> copies
  beside it.
\<close>

record chunk_row = chunk +
  original_title :: pystr
  brand :: pystr
  category :: pystr
  price :: pyval
  availability :: bool

definition str_bool :: "bool \<Rightarrow> pystr" where
  "str_bool b = (if b then py ''True'' else py ''False'')"

definition metadata_of :: "chunk_row \<Rightarrow> (pystr \<times> pystr) list" where
  "metadata_of row =
     [(py ''product_id'', product_id row),
      (py ''chunk_index'', str_int (chunk_index row)),
      (py ''word_count'', str_int (word_count row)),
      (py ''brand'', brand row),
      (py ''category'', category row),
      (py ''price'', str_of (price row)),
      (py ''availability'', str_bool (availability row)),
      (py ''title'', take 100 (original_title row))]"

text \<open>The loop over \<open>range(0, len(ids), batch_size)\<close> with \<open>batch_size = 100\<close>.\<close>

function add_loop ::
  "('s, 'h, 'v) client \<Rightarrow> 'h \<Rightarrow> pystr list \<Rightarrow> 'v list \<Rightarrow> pystr list \<Rightarrow>
   (pystr \<times> pystr) list list \<Rightarrow> nat \<Rightarrow> 's \<Rightarrow> (error + unit) \<times> 's" where
  "add_loop cl collection ids_all embeddings_all documents_all metadatas_all i s =
     (if i < length ids_all
      then
        let end_idx = min (i + 100) (length ids_all) in
        (case collection_add cl collection
                \<lparr>ids = slice i end_idx ids_all,
                 embeddings = slice i end_idx embeddings_all,
                 documents = slice i end_idx documents_all,
                 metadatas = slice i end_idx metadatas_all\<rparr> s of
           (Inl e, s1) \<Rightarrow> (Inl e, s1)
         | (Inr u, s1) \<Rightarrow>
             add_loop cl collection ids_all embeddings_all documents_all metadatas_all (i + 100) s1)
      else (Inr (), s))"
  by pat_completeness auto
termination
  by (relation "measure (\<lambda>(cl, collection, ids_all, embeddings_all, documents_all,
        metadatas_all, i, s). length ids_all - i)") auto

declare add_loop.simps [simp del]

definition store_embeddings ::
  "('s, 'h, 'v) client \<Rightarrow> chunk_row list \<Rightarrow> 'v list \<Rightarrow> pystr \<Rightarrow> 's \<Rightarrow> (error + 'h) \<times> 's" where
  "store_embeddings cl chunks_df embeddings_all collection_name s =
     (case create_collection cl collection_name s of
        (Inl e, s1) \<Rightarrow> (Inl e, s1)
      | (Inr collection, s1) \<Rightarrow>
          (case add_loop cl collection (map chunk_id chunks_df) embeddings_all
                  (map text_str chunks_df) (map metadata_of chunks_df) 0 s1 of
             (Inl e, s2) \<Rightarrow> (Inl e, s2)
           | (Inr u, s2) \<Rightarrow> (Inr collection, s2)))"

subsection \<open>Two clients\<close>

text \<open>
  A reference store, after the capability surface the specification lists for the vector
  store: a collection is looked up, deleted and created by name, a lookup or a deletion
  of a missing collection and a creation of an existing one raise, and \<open>add\<close> appends the
  entries of a batch, raising on an empty batch, on lists of different lengths and on a
  repeated id, and skipping an id the collection already holds.
\<close>

type_synonym 'v entry = "pystr \<times> 'v \<times> pystr \<times> (pystr \<times> pystr) list"

type_synonym 'v store = "pystr \<rightharpoonup> 'v entry list"

definition entries_of :: "'v add_batch \<Rightarrow> 'v entry list" where
  "entries_of b = zip (ids b) (zip (embeddings b) (zip (documents b) (metadatas b)))"

definition store_get :: "pystr \<Rightarrow> 'v store \<Rightarrow> (error + pystr) \<times> 'v store" where
  "store_get name s =
     (case s name of None \<Rightarrow> (Inl (Raised (py ''NotFoundError'')), s)
      | Some es \<Rightarrow> (Inr name, s))"

definition store_delete :: "pystr \<Rightarrow> 'v store \<Rightarrow> (error + unit) \<times> 'v store" where
  "store_delete name s =
     (case s name of None \<Rightarrow> (Inl (Raised (py ''NotFoundError'')), s)
      | Some es \<Rightarrow> (Inr (), s(name := None)))"

definition store_create ::
  "pystr \<Rightarrow> (pystr \<times> pyval) list \<Rightarrow> 'v store \<Rightarrow> (error + pystr) \<times> 'v store" where
  "store_create name md s =
     (case s name of Some es \<Rightarrow> (Inl (Raised (py ''AlreadyExistsError'')), s)
      | None \<Rightarrow> (Inr name, s(name \<mapsto> [])))"

definition store_add :: "pystr \<Rightarrow> 'v add_batch \<Rightarrow> 'v store \<Rightarrow> (error + unit) \<times> 'v store" where
  "store_add name b s =
     (case s name of None \<Rightarrow> (Inl (Raised (py ''NotFoundError'')), s)
      | Some es \<Rightarrow>
          if ids b = [] \<or> length (embeddings b) \<noteq> length (ids b) \<or>
             length (documents b) \<noteq> length (ids b) \<or> length (metadatas b) \<noteq> length (ids b)
          then (Inl (Raised (py ''ValueError'')), s)
          else if \<not> distinct (ids b) then (Inl (Raised (py ''DuplicateIDError'')), s)
          else (Inr (),
                s(name \<mapsto> es @ filter (\<lambda>e. fst e \<notin> set (map fst es)) (entries_of b))))"

definition reference_store :: "('v store, pystr, 'v) client" where
  "reference_store =
     \<lparr>client_get_collection = store_get, client_delete_collection = store_delete,
      client_create_collection = store_create, collection_add = store_add\<rparr>"

text \<open>
  A client that only records the batches it is asked to add, in order: its state is the
  list of the calls of \<open>collection.add\<close> so far.
\<close>

definition recording_client :: "('v add_batch list, unit, 'v) client" where
  "recording_client =
     \<lparr>client_get_collection = (\<lambda>name log. (Inl (Raised (py ''NotFoundError'')), log)),
      client_delete_collection = (\<lambda>name log. (Inr (), log)),
      client_create_collection = (\<lambda>name md log. (Inr (), log)),
      collection_add = (\<lambda>h b log. (Inr (), log @ [b]))\<rparr>"

text \<open>The batch that holds the rows and vectors from position \<open>i\<close> on, 100 at most.\<close>

definition batch_at :: "chunk_row list \<Rightarrow> 'v list \<Rightarrow> nat \<Rightarrow> 'v add_batch" where
  "batch_at chunks_df embeddings_all i =
     (let rows = slice i (i + 100) chunks_df in
      \<lparr>ids = map chunk_id rows, embeddings = slice i (i + 100) embeddings_all,
       documents = map text_str rows, metadatas = map metadata_of rows\<rparr>)"

text \<open>The entry a row and its vector make in the store.\<close>

definition entry_of :: "chunk_row \<Rightarrow> 'v \<Rightarrow> 'v entry" where
  "entry_of row v = (chunk_id row, v, text_str row, metadata_of row)"

section \<open>Inputs of the examples and invariants of the proofs\<close>

text \<open>Two words of 25 letters on two lines: 51 characters.\<close>

definition two_long_words :: pystr where
  "two_long_words = replicate 25 97 @ [10] @ replicate 25 97"

text \<open>The record of the specification's example; the price 19.99 is a float.\<close>

definition example_row :: "pystr \<rightharpoonup> pyval" where
  "example_row = map_of
     [(py ''title'', PStr (py ''Wireless Mouse'')),
      (py ''brand'', PStr (py ''acme'')),
      (py ''category'', PStr (py ''electronics|computers'')),
      (py ''price'', PFloat 1999 2),
      (py ''description'', PStr (replicate 40 65))]"

text \<open>An embedding provider for the examples: the vector of a text is its length.\<close>

definition length_encoder :: "pystr list \<Rightarrow> error + nat list" where
  "length_encoder batch = Inr (map length batch)"

text \<open>
  What the loop of \<open>chunk_text\<close> keeps true: \<open>chunk_index\<close> is the number of chunks
  closed, and the chunks closed carry the indices and identifiers \<open>0, 1, 2, ...\<close> in order.
\<close>

definition loop_inv :: "pystr \<Rightarrow> loop_state \<Rightarrow> bool" where
  "loop_inv pid st =
     (case st of (chunks, cur, cw, idx) \<Rightarrow>
        idx = int (length chunks) \<and>
        map chunk_index chunks = map int [0..<length chunks] \<and>
        map chunk_id chunks =
          map (\<lambda>i. pid @ py ''_chunk_'' @ str_int (int i)) [0..<length chunks])"

text \<open>The part of the loop state that does not mention the product.\<close>

definition shape :: "loop_state \<Rightarrow> nat \<times> pystr \<times> int" where
  "shape st = (case st of (chunks, cur, cw, idx) \<Rightarrow> (length chunks, cur, cw))"

text \<open>
  The calls of \<open>collection.add\<close> that \<open>store_embeddings\<close> issues, in order: what the
  recording client has written down when the function returns.
\<close>

definition recorded_batches :: "chunk_row list \<Rightarrow> 'v list \<Rightarrow> pystr \<Rightarrow> 'v add_batch list" where
  "recorded_batches chunks_df embeddings_all collection_name =
     snd (store_embeddings recording_client chunks_df embeddings_all collection_name [])"

text \<open>Two chunk rows, of two products, for the examples.\<close>

definition example_rows :: "chunk_row list" where
  "example_rows =
     [\<lparr>text_str = py ''Product: Mouse'', chunk_id = py ''P1_chunk_0'', chunk_index = 0,
       word_count = 2, product_id = py ''P1'', original_title = py ''Mouse'',
       brand = py ''acme'', category = py ''electronics'', price = PFloat 1999 2,
       availability = True\<rparr>,
      \<lparr>text_str = py ''Product: Desk'', chunk_id = py ''P2_chunk_0'', chunk_index = 0,
       word_count = 2, product_id = py ''P2'', original_title = py ''Desk'',
       brand = py ''oak'', category = py ''home'', price = PInt 120,
       availability = False\<rparr>]"

text \<open>The entries a chunks table and its vectors make, row by row.\<close>

definition all_entries :: "chunk_row list \<Rightarrow> 'v list \<Rightarrow> 'v entry list" where
  "all_entries chunks_df embeddings_all = map2 entry_of chunks_df embeddings_all"



definition short_then_long_text :: pystr where
  "short_then_long_text = py ''x y z. '' @ concat (replicate 122 (py ''a '')) @ py ''a.''"





section \<open>Properties of chunk_text\<close>

lemma str_split_Nil: "str_split [] = []"
  by (simp add: str_split_def)

lemma loop_inv_step: "loop_inv pid st \<Longrightarrow> loop_inv pid (chunk_step tp pid st s)"
  by (auto simp: loop_inv_def chunk_step_def Let_def mk_chunk_def split: prod.splits)

lemma loop_inv_loop: "loop_inv pid st \<Longrightarrow> loop_inv pid (chunk_loop tp pid ss st)"
  by (induction ss arbitrary: st) (auto simp: loop_inv_step)

lemma loop_inv_finish:
  "loop_inv pid st \<Longrightarrow>
   map chunk_index (finish cl pid st) = map int [0..<length (finish cl pid st)] \<and>
   map chunk_id (finish cl pid st) =
     map (\<lambda>i. pid @ py ''_chunk_'' @ str_int (int i)) [0..<length (finish cl pid st)]"
  by (auto simp: loop_inv_def finish_def Let_def mk_chunk_def split: prod.splits)

lemma chunk_text_numbered:
  "map chunk_index (chunk_text tp tok t pid) = map int [0..<length (chunk_text tp tok t pid)] \<and>
   map chunk_id (chunk_text tp tok t pid) =
     map (\<lambda>i. pid @ py ''_chunk_'' @ str_int (int i)) [0..<length (chunk_text tp tok t pid)]"
proof (cases "is_short tp t")
  case True
  then show ?thesis by (simp add: chunk_text_def mk_chunk_def)
next
  case False
  have "loop_inv pid ([], [], 0, 0)" by (simp add: loop_inv_def)
  then have "loop_inv pid (chunk_loop tp pid (sentences_of tok (clean_text t)) ([], [], 0, 0))"
    by (rule loop_inv_loop)
  from loop_inv_finish[OF this] False show ?thesis
    by (simp add: chunk_text_def Let_def)
qed

lemma shape_step:
  "shape st = shape st' \<Longrightarrow> shape (chunk_step tp pid st s) = shape (chunk_step tp pid' st' s)"
  by (auto simp: shape_def chunk_step_def Let_def split: prod.splits)

lemma shape_loop:
  "shape st = shape st' \<Longrightarrow> shape (chunk_loop tp pid ss st) = shape (chunk_loop tp pid' ss st')"
proof (induction ss arbitrary: st st')
  case Nil
  then show ?case by simp
next
  case (Cons s ss)
  have "shape (chunk_step tp pid st s) = shape (chunk_step tp pid' st' s)"
    using Cons.prems by (rule shape_step)
  then have "shape (chunk_loop tp pid ss (chunk_step tp pid st s)) =
             shape (chunk_loop tp pid' ss (chunk_step tp pid' st' s))"
    by (rule Cons.IH)
  then show ?case by simp
qed

lemma shape_finish:
  "shape st = shape st' \<Longrightarrow> length (finish cl pid st) = length (finish cl pid' st')"
  by (auto simp: shape_def finish_def Let_def split: prod.splits)

lemma chunk_text_length_pid:
  "length (chunk_text tp tok t pid) = length (chunk_text tp tok t pid')"
proof (cases "is_short tp t")
  case True
  then show ?thesis by (simp add: chunk_text_def)
next
  case False
  have "shape (chunk_loop tp pid (sentences_of tok (clean_text t)) ([], [], 0, 0)) =
        shape (chunk_loop tp pid' (sentences_of tok (clean_text t)) ([], [], 0, 0))"
    by (rule shape_loop) simp
  from shape_finish[OF this] False show ?thesis
    by (simp add: chunk_text_def Let_def)
qed

text \<open>
  C9. For every text, every product id, every tokenizer (one that raises included) and
  every pair of sizes, \<open>chunk_text\<close> is a total function without an error result, and the
  list it returns holds at least one chunk.
\<close>

theorem chunk_text_nonempty: "chunk_text tp tok t pid \<noteq> []"
  by (simp add: chunk_text_def finish_def Let_def split: prod.splits)

text \<open>
  C8. The \<open>chunk_index\<close> values of the chunks \<open>chunk_text\<close> returns are 0, 1, 2, ... in
  order, every \<open>chunk_id\<close> is the product id, \<open>_chunk_\<close> and the index, and the indices
  are the same for any other product id.
\<close>

theorem chunk_text_indices_contiguous:
  "map chunk_index (chunk_text tp tok t pid) = map int [0..<length (chunk_text tp tok t pid)] \<and>
   map chunk_id (chunk_text tp tok t pid) =
     map (\<lambda>i. pid @ py ''_chunk_'' @ str_int (int i)) [0..<length (chunk_text tp tok t pid)] \<and>
   map chunk_index (chunk_text tp tok t pid') = map chunk_index (chunk_text tp tok t pid)"
  using chunk_text_numbered[of tp tok t pid] chunk_text_numbered[of tp tok t pid']
        chunk_text_length_pid[of tp tok t pid pid']
  by simp

text \<open>
  C2, as the claim states it, fails: the threshold of 50 is compared with the number of
  characters of the trimmed text, not with its number of words. A text of two words and 51
  characters takes the splitting path, and the one chunk returned holds the cleaned text
  (the newline became a space), not the input.
\<close>

theorem chunk_text_under_50_words_counterexample:
  "length (str_split two_long_words) = 2 \<and>
   length (str_strip two_long_words) = 51 \<and>
   map text_str (chunk_text (TextProcessor 125 25) nltk_unavailable two_long_words (py ''P1''))
     = [replicate 25 97 @ [32] @ replicate 25 97] \<and>
   replicate 25 97 @ [32] @ replicate 25 97 \<noteq> two_long_words"
  by code_simp

text \<open>
  C2, amended. For every text whose trimmed form has fewer than 50 characters (the empty
  text included) and every product id, \<open>chunk_text\<close> returns exactly one chunk: its text
  is the input unchanged, its index 0, its id the product id followed by \<open>_chunk_0\<close>.
\<close>

theorem chunk_text_short_single_chunk:
  "int (length (str_strip t)) < 50 \<Longrightarrow>
   chunk_text (TextProcessor target overlap) tok t pid =
     [\<lparr>text_str = t, chunk_id = pid @ py ''_chunk_0'', chunk_index = 0,
       word_count = int (length (str_split t)), product_id = pid\<rparr>]"
  by (simp add: chunk_text_def is_short_def TextProcessor_def mk_chunk_def str_split_Nil
      str_int_def str_nat.simps py_def)

text \<open>C2, amended, at the text \<open>Tiny mouse\<close> of product \<open>P1\<close>.\<close>

theorem chunk_text_short_single_chunk_witness:
  "int (length (str_strip (py ''Tiny mouse''))) < 50 \<and>
   chunk_text (TextProcessor 125 25) nltk_unavailable (py ''Tiny mouse'') (py ''P1'') =
     [\<lparr>text_str = py ''Tiny mouse'', chunk_id = py ''P1_chunk_0'', chunk_index = 0,
       word_count = 2, product_id = py ''P1''\<rparr>]"
proof -
  have h: "int (length (str_strip (py ''Tiny mouse''))) < 50"
    by code_simp
  have w: "int (length (str_split (py ''Tiny mouse''))) = 2"
    by code_simp
  from chunk_text_short_single_chunk[OF h, of 125 25 nltk_unavailable "py ''P1''"] h w
  show ?thesis by (simp add: py_def)
qed

section \<open>Coverage of the sentences and overlap between chunks\<close>






lemma split_from_nonempty: "x \<in> set (split_from w s) \<Longrightarrow> x \<noteq> []"
  by (induction s arbitrary: w) (auto split: if_splits)

lemma split_from_nospace:
  "x \<in> set (split_from w s) \<Longrightarrow> \<forall>c \<in> set w. \<not> isspace c \<Longrightarrow> \<forall>c \<in> set x. \<not> isspace c"
proof (induction s arbitrary: w)
  case Nil
  then show ?case by (auto split: if_splits)
next
  case (Cons a s)
  show ?case
  proof (cases "isspace a")
    case True
    with Cons.prems have "x = w \<or> x \<in> set (split_from [] s)"
      by (auto split: if_splits)
    then show ?thesis using Cons.IH[of "[]"] Cons.prems(2) by auto
  next
    case False
    with Cons.prems have "x \<in> set (split_from (w @ [a]) s)" by simp
    then show ?thesis using Cons.IH[of "w @ [a]"] Cons.prems(2) False by auto
  qed
qed

lemma split_from_append_space:
  "isspace c \<Longrightarrow> split_from w (a @ c # b) = split_from w a @ split_from [] b"
  by (induction a arbitrary: w) simp_all

lemma split_from_word:
  "\<forall>c \<in> set x. \<not> isspace c \<Longrightarrow> split_from w x = (if w @ x = [] then [] else [w @ x])"
  by (induction x arbitrary: w) simp_all

lemma split_from_spaces: "\<forall>c \<in> set ws. isspace c \<Longrightarrow> split_from w ws = split_from w []"
  by (induction ws arbitrary: w) simp_all

lemma split_from_trailing:
  "\<forall>c \<in> set ws. isspace c \<Longrightarrow> split_from w (a @ ws) = split_from w a"
  by (induction a arbitrary: w) (simp_all add: split_from_spaces)

lemma split_from_leading: "split_from [] (dropWhile isspace s) = split_from [] s"
  by (induction s) simp_all

lemma str_split_strip: "str_split (str_strip s) = str_split s"
proof -
  let ?a = "dropWhile isspace s"
  have "?a = rev (dropWhile isspace (rev ?a)) @ rev (takeWhile isspace (rev ?a))"
    by (metis rev_append rev_rev_ident takeWhile_dropWhile_id)
  moreover have "\<forall>c \<in> set (rev (takeWhile isspace (rev ?a))). isspace c"
    by (auto dest: set_takeWhileD)
  ultimately have "split_from [] ?a = split_from [] (rev (dropWhile isspace (rev ?a)))"
    by (metis split_from_trailing)
  then show ?thesis
    by (simp add: str_split_def str_strip_def split_from_leading)
qed

lemma str_split_join:
  "\<forall>w \<in> set ws. w \<noteq> [] \<and> (\<forall>c \<in> set w. \<not> isspace c) \<Longrightarrow>
   str_split (str_join (py '' '') ws) = ws"
proof (induction "py '' ''" ws rule: str_join.induct)
  case 1
  then show ?case by (simp add: str_split_def)
next
  case (2 x)
  then show ?case by (simp add: str_split_def split_from_word)
next
  case (3 x y ys)
  have sp: "py '' '' = [32]" by (simp add: py_def)
  have "isspace 32" by (simp add: isspace_def)
  then have "split_from [] (x @ 32 # str_join [32] (y # ys)) =
        split_from [] x @ split_from [] (str_join [32] (y # ys))"
    by (rule split_from_append_space)
  then show ?case using 3 by (simp add: str_split_def sp split_from_word)
qed

lemma str_split_words:
  "\<forall>w \<in> set (str_split s). w \<noteq> [] \<and> (\<forall>c \<in> set w. \<not> isspace c)"
  unfolding str_split_def
  using split_from_nonempty[of _ "[]" s] split_from_nospace[of _ "[]" s] by auto

lemma str_join_nonempty:
  "ws \<noteq> [] \<Longrightarrow> \<forall>w \<in> set ws. w \<noteq> [] \<Longrightarrow> str_join sep ws \<noteq> []"
  by (induction sep ws rule: str_join.induct) simp_all

lemma str_split_append_space:
  "str_split (a @ py '' '' @ b) = str_split a @ str_split b"
proof -
  have "isspace 32" by (simp add: isspace_def)
  then show ?thesis
    by (simp add: str_split_def py_def split_from_append_space)
qed











lemma slice_from_neg:
  "0 < o' \<Longrightarrow> slice_from (- o') xs = drop (length xs - nat o') xs"
  by (simp add: slice_from_def nat_diff_distrib')




text \<open>
  C3, as the claim states it, fails: \<open>_get_overlap\<close> returns the empty string when the
  chunk has no more than \<open>overlap_size\<close> words. After the chunk \<open>x y z\<close> is closed by a
  sentence of 123 words, the next buffer is that sentence alone, without the three words.
\<close>

theorem chunk_text_no_overlap_counterexample:
  "get_overlap (TextProcessor 125 25) (py ''x y z'') = [] \<and>
   map text_str (chunk_text (TextProcessor 125 25) nltk_unavailable short_then_long_text (py ''P1''))
     = [py ''x y z'', str_join (py '' '') (replicate 123 (py ''a''))]"
  by code_simp

text \<open>
  C3, amended. For a positive \<open>overlap_size\<close>: when a non-blank sentence would push the
  word count over the target and the buffer is not empty, the chunk is closed with the
  trimmed buffer as its text, the count and the index, and the index advances. If the
  closed chunk's text has more than \<open>overlap_size\<close> words, the next buffer is its last
  \<open>overlap_size\<close> words joined by single spaces, a space and the sentence, so its words
  are those words followed by the words of the sentence; if it has \<open>overlap_size\<close> words
  or fewer, the next buffer is the sentence alone.
\<close>

theorem chunk_step_closes_with_overlap:
  assumes s: "str_strip s \<noteq> []" and cur: "cur \<noteq> []"
    and over: "cw + int (length (str_split (str_strip s))) > target_chunk_size tp"
    and pos: "0 < overlap_size tp"
  shows
   "let closed = str_strip cur;
        ws = str_split closed;
        tail_ws = drop (length ws - nat (overlap_size tp)) ws;
        nb = (if int (length ws) > overlap_size tp
              then str_join (py '' '') tail_ws @ py '' '' @ str_strip s
              else str_strip s)
    in chunk_step tp pid (chunks, cur, cw, idx) s =
         (chunks @ [mk_chunk closed pid idx cw], nb, int (length (str_split nb)), idx + 1) \<and>
       (int (length ws) > overlap_size tp \<longrightarrow>
          length tail_ws = nat (overlap_size tp) \<and>
          str_split nb = tail_ws @ str_split (str_strip s))"
proof -
  let ?ws = "str_split cur"
  let ?tail = "drop (length ?ws - nat (overlap_size tp)) ?ws"
  have words: "\<forall>w \<in> set ?tail. w \<noteq> [] \<and> (\<forall>c \<in> set w. \<not> isspace c)"
    using str_split_words[of cur] by (auto dest: in_set_dropD)
  have ov: "get_overlap tp cur =
      (if int (length ?ws) > overlap_size tp then str_join (py '' '') ?tail else [])"
    using cur pos by (simp add: get_overlap_def Let_def slice_from_neg)
  have ne: "str_join (py '' '') ?tail \<noteq> []" if "int (length ?ws) > overlap_size tp"
  proof (rule str_join_nonempty)
    from that pos show "?tail \<noteq> []" by simp
    from words show "\<forall>w \<in> set ?tail. w \<noteq> []" by blast
  qed
  have len: "length ?tail = nat (overlap_size tp)" if "int (length ?ws) > overlap_size tp"
    using that pos by simp
  have sp: "str_split (str_join (py '' '') ?tail @ py '' '' @ str_strip s) =
        ?tail @ str_split (str_strip s)"
    by (simp add: str_split_append_space str_split_join[OF words])
  show ?thesis
    using s cur over ne len sp
    by (simp add: Let_def chunk_step_def str_split_strip ov)
qed

text \<open>
  C3, amended, with a target of 5 words and an overlap of 2: the buffer \<open>a b c d\<close> is
  closed by the sentence \<open>e f\<close>, and the next buffer is \<open>c d e f\<close>.
\<close>

theorem chunk_step_closes_with_overlap_witness:
  "str_strip (py ''e f'') \<noteq> [] \<and> py ''a b c d'' \<noteq> [] \<and>
   4 + int (length (str_split (str_strip (py ''e f'')))) > target_chunk_size (TextProcessor 5 2) \<and>
   0 < overlap_size (TextProcessor 5 2) \<and>
   (let closed = str_strip (py ''a b c d'');
        ws = str_split closed;
        tail_ws = drop (length ws - nat (overlap_size (TextProcessor 5 2))) ws;
        nb = (if int (length ws) > overlap_size (TextProcessor 5 2)
              then str_join (py '' '') tail_ws @ py '' '' @ str_strip (py ''e f'')
              else str_strip (py ''e f''))
    in chunk_step (TextProcessor 5 2) (py ''P1'') ([], py ''a b c d'', 4, 0) (py ''e f'') =
         ([] @ [mk_chunk closed (py ''P1'') 0 4], nb, int (length (str_split nb)), 0 + 1) \<and>
       (int (length ws) > overlap_size (TextProcessor 5 2) \<longrightarrow>
          length tail_ws = nat (overlap_size (TextProcessor 5 2)) \<and>
          str_split nb = tail_ws @ str_split (str_strip (py ''e f'')))) \<and>
   chunk_step (TextProcessor 5 2) (py ''P1'') ([], py ''a b c d'', 4, 0) (py ''e f'') =
     ([mk_chunk (py ''a b c d'') (py ''P1'') 0 4], py ''c d e f'', 4, 1)"
proof -
  have h1: "str_strip (py ''e f'') \<noteq> []" by code_simp
  have h2: "py ''a b c d'' \<noteq> []" by code_simp
  have h3: "4 + int (length (str_split (str_strip (py ''e f'')))) >
            target_chunk_size (TextProcessor 5 2)"
    by code_simp
  have h4: "0 < overlap_size (TextProcessor 5 2)" by code_simp
  have e: "chunk_step (TextProcessor 5 2) (py ''P1'') ([], py ''a b c d'', 4, 0) (py ''e f'') =
     ([mk_chunk (py ''a b c d'') (py ''P1'') 0 4], py ''c d e f'', 4, 1)"
    by code_simp
  show ?thesis
    by (intro conjI h1 h2 h3 h4 e
          chunk_step_closes_with_overlap[OF h1 h2 h3 h4, of "py ''P1''" "[]" 0])
qed

section \<open>Properties of concatenate_product_text\<close>

text \<open>
  C7. On the record of the example the function returns the clauses in the order product,
  brand, category, price, description, with \<open>|\<close> turned into \<open> > \<close>; the price clause
  begins with the three characters U+00E2, U+201A, U+00B9 of the source file, where the
  claim has the one character U+20B9.
\<close>

theorem concatenate_product_text_example:
  "concatenate_product_text example_row =
     Inr (py ''Product: Wireless Mouse. Brand: acme. Category: electronics > computers. Price: '' @
          [226, 8218, 185] @ py ''19.99. Description: '' @ replicate 40 65)"
  by code_simp

section \<open>Properties of generate_embeddings\<close>

lemma embed_loop_map:
  assumes enc: "\<forall>batch. encode batch = Inr (map emb batch)" and bs: "0 < bs"
  shows "embed_loop encode texts bs i acc = Inr (acc @ map emb (drop i texts))"
proof (induction "length texts - i" arbitrary: i acc rule: less_induct)
  case less
  show ?case
  proof (cases "i < length texts")
    case True
    have e: "encode (slice i (i + bs) texts) = Inr (map emb (take bs (drop i texts)))"
      using enc by (simp add: slice_def)
    have "length texts - (i + bs) < length texts - i"
      using True bs by arith
    from less[OF this]
    have IH: "embed_loop encode texts bs (i + bs) (acc @ map emb (take bs (drop i texts)))
          = Inr ((acc @ map emb (take bs (drop i texts))) @ map emb (drop (i + bs) texts))" .
    have "map emb (take bs (drop i texts)) @ map emb (drop (i + bs) texts) = map emb (drop i texts)"
      by (metis append_take_drop_id drop_drop map_append add.commute)
    then show ?thesis
      using True bs by (subst embed_loop.simps) (simp add: e IH)
  next
    case False
    then show ?thesis by (subst embed_loop.simps) simp
  qed
qed

text \<open>
  C4. When the provider embeds every text of a batch on its own (the batch's result is the
  list of the embeddings \<open>emb\<close> of its texts), \<open>generate_embeddings\<close> returns, for every
  list of texts and every positive batch size, the list of the embeddings of the texts, one
  per text and in their order; so the result is the same for any two positive batch sizes.
\<close>

theorem generate_embeddings_batch_independent:
  assumes "\<forall>batch. encode batch = Inr (map emb batch)"
    and "0 < batch_size" and "0 < batch_size'"
  shows "generate_embeddings encode texts batch_size = Inr (map emb texts) \<and>
         generate_embeddings encode texts batch_size' =
           generate_embeddings encode texts batch_size"
proof -
  have "\<And>b. 0 < b \<Longrightarrow> generate_embeddings encode texts b = Inr (map emb texts)"
    using embed_loop_map[OF assms(1), of _ texts 0 "[]"]
    by (simp add: generate_embeddings_def)
  then show ?thesis using assms(2,3) by simp
qed

text \<open>C4 at three texts, with batches of 2 and of 32.\<close>

theorem generate_embeddings_batch_independent_witness:
  "(\<forall>batch. length_encoder batch = Inr (map length batch)) \<and> (0::int) < 2 \<and> (0::int) < 32 \<and>
   generate_embeddings length_encoder [py ''a'', py ''bc'', py ''def''] 2 = Inr [1, 2, 3] \<and>
   generate_embeddings length_encoder [py ''a'', py ''bc'', py ''def''] 32 =
     generate_embeddings length_encoder [py ''a'', py ''bc'', py ''def''] 2"
proof -
  have h: "\<forall>batch. length_encoder batch = Inr (map length batch)"
    by (simp add: length_encoder_def)
  have p2: "(0::int) < 2" and p32: "(0::int) < 32"
    by simp_all
  have m: "map length [py ''a'', py ''bc'', py ''def''] = [1, 2, 3]"
    by (simp add: py_def)
  note r = generate_embeddings_batch_independent[OF h p2 p32, of "[py ''a'', py ''bc'', py ''def'']"]
  have r1: "generate_embeddings length_encoder [py ''a'', py ''bc'', py ''def''] 2 = Inr [1, 2, 3]"
    using r[THEN conjunct1] by (simp only: m)
  show ?thesis
    by (intro conjI h p2 p32 r1 r[THEN conjunct2])
qed

section \<open>Properties of create_collection and store_embeddings\<close>

text \<open>
  C10. For every client, collection name and state of the store, \<open>create_collection\<close>
  is the client's creation call on the state the reset phase left: whatever the lookup or
  the deletion raised is dropped, the creation always runs, and an error of
  \<open>create_collection\<close> is an error of that creation call.
\<close>

theorem create_collection_swallows_reset_errors:
  "create_collection cl name s =
     client_create_collection cl name collection_metadata (snd (reset_phase cl name s))"
  by (simp add: create_collection_def split: prod.splits sum.splits)

lemma ceil_div_step:
  "i < n \<Longrightarrow> (n - i + 99) div 100 = Suc ((n - (i + 100) + 99) div 100)" for i n :: nat
proof (cases "i + 100 \<le> n")
  case True
  then have "n - i + 99 = (n - (i + 100) + 99) + 100" by simp
  then show ?thesis by (simp only: div_add_self2)
next
  case False
  assume "i < n"
  with False have "n - (i + 100) = 0" "n - i + 99 < 200" "100 \<le> n - i + 99" by simp_all
  then show ?thesis by (simp add: div_nat_eqI)
qed

lemma batches_upt_Suc:
  "map (\<lambda>k. batch_at rows es (i + 100 * k)) [0..<Suc m] =
   batch_at rows es i # map (\<lambda>k. batch_at rows es (i + 100 + 100 * k)) [0..<m]"
  by (simp only: map_upt_Suc) (simp add: add.assoc)

lemma batch_at_slices:
  "length es = length rows \<Longrightarrow> i < length rows \<Longrightarrow>
   \<lparr>ids = slice i (min (i + 100) (length rows)) (map chunk_id rows),
    embeddings = slice i (min (i + 100) (length rows)) es,
    documents = slice i (min (i + 100) (length rows)) (map text_str rows),
    metadatas = slice i (min (i + 100) (length rows)) (map metadata_of rows)\<rparr>
   = batch_at rows es i"
  by (simp add: batch_at_def Let_def slice_def min_def take_map drop_map)

lemma add_loop_recording:
  assumes len: "length es = length rows"
  shows "add_loop recording_client h (map chunk_id rows) es (map text_str rows)
           (map metadata_of rows) i log =
         (Inr (), log @ map (\<lambda>k. batch_at rows es (i + 100 * k))
                          [0..<(length rows - i + 99) div 100])"
proof (induction "length rows - i" arbitrary: i log rule: less_induct)
  case less
  show ?case
  proof (cases "i < length rows")
    case True
    have d: "length rows - (i + 100) < length rows - i" using True by simp
    define m where "m = (length rows - (i + 100) + 99) div 100"
    have n: "(length rows - i + 99) div 100 = Suc m"
      unfolding m_def using True by (rule ceil_div_step)
    have "add_loop recording_client h (map chunk_id rows) es (map text_str rows)
           (map metadata_of rows) i log =
          add_loop recording_client h (map chunk_id rows) es (map text_str rows)
           (map metadata_of rows) (i + 100) (log @ [batch_at rows es i])"
      apply (subst add_loop.simps)
      apply (simp only: length_map True if_True Let_def batch_at_slices[OF len True])
      apply (simp add: recording_client_def)
      done
    also have "\<dots> = (Inr (), (log @ [batch_at rows es i]) @
        map (\<lambda>k. batch_at rows es (i + 100 + 100 * k)) [0..<m])"
      unfolding m_def by (rule less[OF d])
    also have "\<dots> = (Inr (), log @ map (\<lambda>k. batch_at rows es (i + 100 * k))
                          [0..<(length rows - i + 99) div 100])"
      by (simp only: n batches_upt_Suc) simp
    finally show ?thesis .
  next
    case False
    then show ?thesis by (subst add_loop.simps) simp
  qed
qed

lemma recorded_batches_eq:
  assumes len: "length es = length rows"
  shows "recorded_batches rows es name =
         map (\<lambda>k. batch_at rows es (100 * k)) [0..<(length rows + 99) div 100]"
proof -
  have c: "create_collection recording_client name [] = (Inr (), ([] :: 'a add_batch list))"
    by (simp add: create_collection_def reset_phase_def recording_client_def)
  show ?thesis
    unfolding recorded_batches_def store_embeddings_def
    by (simp add: c add_loop_recording[OF len])
qed

lemma concat_windows:
  "concat (map (\<lambda>k. take m (drop (m * k) xs)) [0..<j]) = take (m * j) xs"
proof (induction j)
  case 0
  then show ?case by simp
next
  case (Suc j)
  have "take (m * j) xs @ take m (drop (m * j) xs) = take (m * j + m) xs"
    by (simp add: take_add)
  with Suc show ?case by (simp add: add.commute)
qed

lemma ceil_covers: "n \<le> 100 * ((n + 99) div 100)" for n :: nat
proof -
  have "n + 99 = 100 * ((n + 99) div 100) + (n + 99) mod 100" by simp
  moreover have "(n + 99) mod 100 < 100" by simp
  ultimately show ?thesis by linarith
qed

lemma ceil_below: "k < (n + 99) div 100 \<Longrightarrow> 100 * k < n" for n k :: nat
proof -
  assume "k < (n + 99) div 100"
  then have "Suc k \<le> (n + 99) div 100" by simp
  then have "100 * Suc k \<le> 100 * ((n + 99) div 100)" by (rule mult_le_mono2)
  also have "\<dots> \<le> n + 99" by simp
  finally show ?thesis by simp
qed

text \<open>
  C6. When the chunks table and the embeddings array have the same length, the batches
  \<open>store_embeddings\<close> passes to \<open>collection.add\<close> are the consecutive slices of 100
  chunks (the last one shorter): every batch is non-empty, holds at most 100 entries and
  its four lists have the same length; position \<open>j\<close> of batch \<open>k\<close> holds, in each of the
  four lists, the id, vector, text and metadata of chunk \<open>100 k + j\<close>; and the batches
  together cover all the chunks and vectors, in order.
\<close>

theorem store_embeddings_batches_aligned:
  assumes len: "length embeddings_all = length chunks_df"
  shows
   "recorded_batches chunks_df embeddings_all name =
      map (\<lambda>k. batch_at chunks_df embeddings_all (100 * k)) [0..<(length chunks_df + 99) div 100] \<and>
    (\<forall>b \<in> set (recorded_batches chunks_df embeddings_all name).
       0 < length (ids b) \<and> length (ids b) \<le> 100 \<and>
       length (embeddings b) = length (ids b) \<and>
       length (documents b) = length (ids b) \<and>
       length (metadatas b) = length (ids b)) \<and>
    (\<forall>k < length (recorded_batches chunks_df embeddings_all name).
       \<forall>j < length (ids (recorded_batches chunks_df embeddings_all name ! k)).
         ids (recorded_batches chunks_df embeddings_all name ! k) ! j =
           chunk_id (chunks_df ! (100 * k + j)) \<and>
         embeddings (recorded_batches chunks_df embeddings_all name ! k) ! j =
           embeddings_all ! (100 * k + j) \<and>
         documents (recorded_batches chunks_df embeddings_all name ! k) ! j =
           text_str (chunks_df ! (100 * k + j)) \<and>
         metadatas (recorded_batches chunks_df embeddings_all name ! k) ! j =
           metadata_of (chunks_df ! (100 * k + j))) \<and>
    concat (map ids (recorded_batches chunks_df embeddings_all name)) = map chunk_id chunks_df \<and>
    concat (map embeddings (recorded_batches chunks_df embeddings_all name)) = embeddings_all"
proof -
  let ?n = "length chunks_df"
  let ?nb = "(?n + 99) div 100"
  let ?log = "recorded_batches chunks_df embeddings_all name"
  have eq: "?log = map (\<lambda>k. batch_at chunks_df embeddings_all (100 * k)) [0..<?nb]"
    by (rule recorded_batches_eq[OF len])
  have lens: "0 < length (ids b) \<and> length (ids b) \<le> 100 \<and>
       length (embeddings b) = length (ids b) \<and>
       length (documents b) = length (ids b) \<and>
       length (metadatas b) = length (ids b)" if "b \<in> set ?log" for b
  proof -
    from that eq obtain k where k: "k < ?nb" and b: "b = batch_at chunks_df embeddings_all (100 * k)"
      by auto
    from k have "100 * k < ?n" by (rule ceil_below)
    then show ?thesis using len by (simp add: b batch_at_def Let_def slice_def)
  qed
  have nth: "ids (?log ! k) ! j = chunk_id (chunks_df ! (100 * k + j)) \<and>
         embeddings (?log ! k) ! j = embeddings_all ! (100 * k + j) \<and>
         documents (?log ! k) ! j = text_str (chunks_df ! (100 * k + j)) \<and>
         metadatas (?log ! k) ! j = metadata_of (chunks_df ! (100 * k + j))"
    if "k < length ?log" and "j < length (ids (?log ! k))" for k j
  proof -
    from that(1) eq have k: "k < ?nb" by simp
    then have lk: "?log ! k = batch_at chunks_df embeddings_all (100 * k)"
      by (simp add: eq)
    from that(2) have j: "j < 100" "100 * k + j < ?n"
      by (auto simp: lk batch_at_def Let_def slice_def)
    then show ?thesis using len
      by (simp add: lk batch_at_def Let_def slice_def)
  qed
  have ci: "concat (map ids ?log) = map chunk_id chunks_df"
  proof -
    have "concat (map ids ?log) =
          concat (map (\<lambda>k. take 100 (drop (100 * k) (map chunk_id chunks_df))) [0..<?nb])"
      by (simp add: eq batch_at_def Let_def slice_def o_def take_map drop_map)
    also have "\<dots> = take (100 * ?nb) (map chunk_id chunks_df)"
      by (rule concat_windows)
    also have "\<dots> = map chunk_id chunks_df"
      using ceil_covers[of ?n] by simp
    finally show ?thesis .
  qed
  have ce: "concat (map embeddings ?log) = embeddings_all"
  proof -
    have "concat (map embeddings ?log) =
          concat (map (\<lambda>k. take 100 (drop (100 * k) embeddings_all)) [0..<?nb])"
      by (simp add: eq batch_at_def Let_def slice_def o_def)
    also have "\<dots> = take (100 * ?nb) embeddings_all"
      by (rule concat_windows)
    also have "\<dots> = embeddings_all"
      using ceil_covers[of ?n] len by simp
    finally show ?thesis .
  qed
  show ?thesis using eq lens nth ci ce by blast
qed

text \<open>C6 at the two example rows with the vectors 10 and 20: one batch of two entries.\<close>

theorem store_embeddings_batches_aligned_witness:
  "length [10, 20 :: nat] = length example_rows \<and>
   recorded_batches example_rows [10, 20 :: nat] (py ''products'') =
     [\<lparr>ids = [py ''P1_chunk_0'', py ''P2_chunk_0''], embeddings = [10, 20],
       documents = [py ''Product: Mouse'', py ''Product: Desk''],
       metadatas = map metadata_of example_rows\<rparr>]"
proof -
  have h: "length [10, 20 :: nat] = length example_rows"
    by (simp add: example_rows_def)
  have e: "map (\<lambda>k. batch_at example_rows [10, 20 :: nat] (100 * k))
             [0..<(length example_rows + 99) div 100] =
           [\<lparr>ids = [py ''P1_chunk_0'', py ''P2_chunk_0''], embeddings = [10, 20],
             documents = [py ''Product: Mouse'', py ''Product: Desk''],
             metadatas = map metadata_of example_rows\<rparr>]"
    by code_simp
  from store_embeddings_batches_aligned[OF h, of "py ''products''", THEN conjunct1] e h
  show ?thesis by simp
qed

lemma entries_of_batch_at:
  "entries_of (batch_at rows es i) = all_entries (slice i (i + 100) rows) (slice i (i + 100) es)"
proof -
  have "zip (map chunk_id rs) (zip vs (zip (map text_str rs) (map metadata_of rs))) =
        map2 entry_of rs vs" for rs :: "chunk_row list" and vs :: "'a list"
  proof (induction rs arbitrary: vs)
    case Nil
    then show ?case by simp
  next
    case (Cons r rs)
    then show ?case by (cases vs) (simp_all add: entry_of_def)
  qed
  then show ?thesis
    by (simp add: entries_of_def batch_at_def Let_def all_entries_def)
qed

lemma fst_all_entries:
  "length es = length rows \<Longrightarrow> map fst (all_entries rows es) = map chunk_id rows"
  by (induction rows es rule: list_induct2') (simp_all add: all_entries_def entry_of_def)

lemma all_entries_split:
  "all_entries (take m rows) (take m es) @ all_entries (drop m rows) (drop m es) =
   all_entries rows es"
proof -
  have "zip (take m rows) (take m es) @ zip (drop m rows) (drop m es) = zip rows es"
    by (metis append_take_drop_id take_zip drop_zip)
  then show ?thesis
    unfolding all_entries_def by (metis map_append)
qed

lemma store_add_fresh:
  assumes s: "s name = Some old"
    and ne: "ids b \<noteq> []"
    and l1: "length (embeddings b) = length (ids b)"
    and l2: "length (documents b) = length (ids b)"
    and l3: "length (metadatas b) = length (ids b)"
    and d: "distinct (ids b)"
    and fresh: "set (ids b) \<inter> set (map fst old) = {}"
  shows "store_add name b s = (Inr (), s(name \<mapsto> old @ entries_of b))"
proof -
  have "fst e \<notin> set (map fst old)" if "e \<in> set (entries_of b)" for e
  proof -
    from that have "(fst e, snd e) \<in>
        set (zip (ids b) (zip (embeddings b) (zip (documents b) (metadatas b))))"
      unfolding entries_of_def by simp
    then have "fst e \<in> set (ids b)"
      by (rule set_zip_leftD)
    with fresh show ?thesis by blast
  qed
  then have "filter (\<lambda>e. fst e \<notin> set (map fst old)) (entries_of b) = entries_of b"
    by (simp add: filter_id_conv)
  then show ?thesis
    using s ne l1 l2 l3 d by (simp add: store_add_def)
qed


lemma take_slice_ids:
  "map fst old = take i xs \<Longrightarrow> distinct xs \<Longrightarrow> set (slice i (i + 100) xs) \<inter> set (map fst old) = {}"
proof -
  assume o: "map fst old = take i xs" and d: "distinct xs"
  have "set (take 100 (drop i xs)) \<subseteq> set (drop i xs)" by (rule set_take_subset)
  moreover from d have "set (take i xs) \<inter> set (drop i xs) = {}"
    by (metis append_take_drop_id distinct_append)
  ultimately show ?thesis using o by (auto simp: slice_def)
qed

lemma add_loop_reference:
  assumes len: "length es = length rows" and dist: "distinct (map chunk_id rows)"
  shows "s name = Some old \<Longrightarrow> map fst old = take i (map chunk_id rows) \<Longrightarrow>
         add_loop reference_store name (map chunk_id rows) es (map text_str rows)
           (map metadata_of rows) i s =
         (Inr (), s(name \<mapsto> old @ all_entries (drop i rows) (drop i es)))"
proof (induction "length rows - i" arbitrary: i s old rule: less_induct)
  case less
  show ?case
  proof (cases "i < length rows")
    case True
    let ?b = "batch_at rows es i"
    have d: "length rows - (i + 100) < length rows - i" using True by simp
    have ne: "ids ?b \<noteq> []" using True by (simp add: batch_at_def Let_def slice_def)
    have l: "length (embeddings ?b) = length (ids ?b)" "length (documents ?b) = length (ids ?b)"
      "length (metadatas ?b) = length (ids ?b)"
      using len by (simp_all add: batch_at_def Let_def slice_def)
    have di: "distinct (ids ?b)"
      using dist by (simp add: batch_at_def Let_def slice_def flip: take_map drop_map)
    have idb: "ids ?b = slice i (i + 100) (map chunk_id rows)"
      by (simp add: batch_at_def Let_def slice_def take_map drop_map)
    have fresh: "set (ids ?b) \<inter> set (map fst old) = {}"
      unfolding idb using less.prems(2) dist by (rule take_slice_ids)
    have add: "store_add name ?b s = (Inr (), s(name \<mapsto> old @ entries_of ?b))"
      using less.prems(1) ne l di fresh by (rule store_add_fresh)
    let ?s1 = "s(name \<mapsto> old @ entries_of ?b)"
    have s1: "?s1 name = Some (old @ entries_of ?b)" by simp
    have f1: "map fst (old @ entries_of ?b) = take (i + 100) (map chunk_id rows)"
    proof -
      have "map fst (entries_of ?b) = take 100 (drop i (map chunk_id rows))"
        unfolding entries_of_batch_at
        using len by (simp add: fst_all_entries slice_def take_map drop_map)
      then show ?thesis
        using less.prems(2) by (simp add: take_add add.commute)
    qed
    have "add_loop reference_store name (map chunk_id rows) es (map text_str rows)
           (map metadata_of rows) i s =
          add_loop reference_store name (map chunk_id rows) es (map text_str rows)
           (map metadata_of rows) (i + 100) ?s1"
      apply (subst add_loop.simps)
      apply (simp only: length_map True if_True Let_def batch_at_slices[OF len True])
      apply (simp add: reference_store_def add)
      done
    also have "\<dots> = (Inr (), ?s1(name \<mapsto> (old @ entries_of ?b) @
                  all_entries (drop (i + 100) rows) (drop (i + 100) es)))"
      using s1 f1 by (rule less.hyps[OF d])
    also have "\<dots> = (Inr (), s(name \<mapsto> old @ all_entries (drop i rows) (drop i es)))"
    proof -
      have "(old @ entries_of ?b) @ all_entries (drop (i + 100) rows) (drop (i + 100) es) =
            old @ all_entries (drop i rows) (drop i es)"
        using all_entries_split[of 100 "drop i rows" "drop i es"]
        by (simp add: entries_of_batch_at slice_def add.commute)
      then show ?thesis by simp
    qed
    finally show ?thesis .
  next
    case False
    then have "all_entries (drop i rows) (drop i es) = []"
      by (simp add: all_entries_def)
    with False less.prems(1) show ?thesis
      by (subst add_loop.simps) (simp add: fun_upd_idem)
  qed
qed

lemma create_collection_reference:
  "create_collection reference_store name s = (Inr name, s(name \<mapsto> []))"
  by (cases "s name")
     (simp_all add: create_collection_def reset_phase_def reference_store_def
        store_get_def store_delete_def store_create_def)


text \<open>
  C5. On the reference store, for every collection name and every state of the store
  (whatever a previous run left under that name), \<open>store_embeddings\<close> with a chunks table
  of distinct chunk ids and as many vectors succeeds and leaves under the name exactly the
  entries of this chunks table, the other collections untouched; so a second run with a
  modified chunk set leaves only the entries of the second chunk set.
\<close>

theorem store_embeddings_resets_collection:
  assumes "length embeddings_all = length chunks_df" and "distinct (map chunk_id chunks_df)"
  shows "store_embeddings reference_store chunks_df embeddings_all name s =
           (Inr name, s(name \<mapsto> all_entries chunks_df embeddings_all)) \<and>
         snd (store_embeddings reference_store chunks_df embeddings_all name
                (snd (store_embeddings reference_store old_chunks old_embeddings name s))) name =
           Some (all_entries chunks_df embeddings_all)"
proof -
  have run: "store_embeddings reference_store chunks_df embeddings_all name s' =
           (Inr name, s'(name \<mapsto> all_entries chunks_df embeddings_all))" for s'
  proof -
    have "add_loop reference_store name (map chunk_id chunks_df) embeddings_all
            (map text_str chunks_df) (map metadata_of chunks_df) 0 (s'(name \<mapsto> [])) =
          (Inr (), (s'(name \<mapsto> []))(name \<mapsto>
             [] @ all_entries (drop 0 chunks_df) (drop 0 embeddings_all)))"
      by (rule add_loop_reference[OF assms]) simp_all
    then show ?thesis
      by (simp add: store_embeddings_def create_collection_reference)
  qed
  show ?thesis by (simp add: run)
qed

text \<open>
  C5 at a first run with the two example rows and a second run, under the same name, with
  the second row alone and a new vector: the collection holds that one entry.
\<close>

theorem store_embeddings_resets_collection_witness:
  "length [30 :: nat] = length (tl example_rows) \<and>
   distinct (map chunk_id (tl example_rows)) \<and>
   snd (store_embeddings reference_store (tl example_rows) [30 :: nat] (py ''products'')
          (snd (store_embeddings reference_store example_rows [10, 20] (py ''products'')
                  Map.empty))) (py ''products'') =
     Some [entry_of (example_rows ! 1) 30]"
proof -
  have h1: "length [30 :: nat] = length (tl example_rows)"
    by (simp add: example_rows_def)
  have h2: "distinct (map chunk_id (tl example_rows))"
    by (simp add: example_rows_def)
  have e: "all_entries (tl example_rows) [30 :: nat] = [entry_of (example_rows ! 1) 30]"
    by (simp add: all_entries_def example_rows_def)
  from store_embeddings_resets_collection[OF h1 h2, THEN conjunct2,
        of "py ''products''" example_rows "[10, 20]" Map.empty]
  show ?thesis using h1 h2 by (simp only: e)
qed

end
